theory Spec2Isabelle
  imports Complex_Main "HOL-Library.Word" "HOL-Library.AList"
begin

section \<open>The keyspace engine of EchoVault\<close>

text \<open>
  A shallow embedding of the keyspace store (\<^verbatim>\<open>getKeys\<close>, \<^verbatim>\<open>keysExist\<close>,
  \<^verbatim>\<open>getExpiry\<close>, \<^verbatim>\<open>getValues\<close>, \<^verbatim>\<open>setValues\<close>, \<^verbatim>\<open>setExpiry\<close>,
  \<^verbatim>\<open>deleteKey\<close>), the memory governor \<^verbatim>\<open>adjustMemoryUsage\<close>, the TTL sampler
  \<^verbatim>\<open>evictKeysWithExpiredTTL\<close> and the dispatcher \<^verbatim>\<open>handleCommand\<close>.

  One call is followed on one thread, which holds no lock when the call starts. Locks
  are left out, except where a function locks \<^verbatim>\<open>storeLock\<close> while it holds it (the
  loop of \<^verbatim>\<open>allkeys-random\<close>, the call of the sampler to itself): the lock is not
  reentrant, and the call blocks there. A goroutine started with \<^verbatim>\<open>go\<close> is recorded
  in the field \<open>spawned\<close> and not run. Log output is left out.
\<close>

subsection \<open>Data model\<close>

text \<open>
  An instant of \<^verbatim>\<open>time.Time\<close> is an integer; \<open>zeroTime\<close> is \<^verbatim>\<open>time.Time{}\<close>,
  \<^verbatim>\<open>a.Before(b)\<close> is \<open>a < b\<close>. An \<^verbatim>\<open>error\<close> is its message, \<^verbatim>\<open>[]byte\<close> a string.
  A value of \<^verbatim>\<open>interface{}\<close> is an option: \<open>None\<close> is \<^verbatim>\<open>nil\<close>.
\<close>

type_synonym time = int
type_synonym error = string

definition zeroTime :: time where
  "zeroTime = 0"

record 'v KeyData =
  Value :: "'v option"
  ExpireAt :: time

text \<open>The zero value \<^verbatim>\<open>KeyData{}\<close>, which a Go map yields for a key it does not hold.\<close>

definition zeroKeyData :: "'v KeyData" where
  "zeroKeyData = \<lparr>Value = None, ExpireAt = zeroTime\<rparr>"

text \<open>
  The fields of the configuration that these functions read. \<open>EvictionSample\<close> is the
  sample size as \<^verbatim>\<open>int(server.config.EvictionSample)\<close> gives it.
\<close>

record Config =
  MaxMemory :: "64 word"
  EvictionPolicy :: string
  EvictionSample :: nat
  ForwardCommand :: bool

datatype forward = ForwardDeleteKey string | ForwardDataMutation string

datatype task =
    GetValuesCacheUpdate "string list"
  | SetValuesCacheUpdate "string list"
  | SetExpiryCacheUpdate string
  | QueueCommand string

text \<open>
  The server. \<open>store\<close> is the Go map as an association list (the order of the list is
  the order in which \<^verbatim>\<open>range\<close> visits the map, which Go leaves open); lookups go
  through \<open>map_of\<close>. \<open>isInCluster\<close> and \<open>IsRaftLeader\<close> are what the methods of
  these names answer, \<open>clock\<close> what \<^verbatim>\<open>server.clock.Now()\<close> answers during the call.
  \<open>lfuCache\<close> and \<open>lruCache\<close> hold the keys of the two eviction heaps, root first.
  \<open>forwarded\<close> collects what was handed to the member list for the leader.
\<close>

record 'v server =
  config :: Config
  isInCluster :: bool
  IsRaftLeader :: bool
  raftApplyFails :: "string \<Rightarrow> bool"
  clock :: time
  store :: "(string \<times> 'v KeyData) list"
  keysWithExpiry :: "string list"
  lfuCache :: "string list"
  lruCache :: "string list"
  stateCopyInProgress :: bool
  stateMutationInProgress :: bool
  changeCount :: nat
  forwarded :: "forward list"
  spawned :: "task list"

text \<open>
  Modelled from the spec: the policy names of the package \<^verbatim>\<open>constants\<close>, which is not
  among the sources; the spec's table of policies gives their spelling.
\<close>

definition AllKeysLFU :: string where "AllKeysLFU = ''allkeys-lfu''"
definition VolatileLFU :: string where "VolatileLFU = ''volatile-lfu''"
definition AllKeysLRU :: string where "AllKeysLRU = ''allkeys-lru''"
definition VolatileLRU :: string where "VolatileLRU = ''volatile-lru''"
definition AllKeysRandom :: string where "AllKeysRandom = ''allkeys-random''"
definition VolatileRandom :: string where "VolatileRandom = ''volatile-random''"
definition NoEviction :: string where "NoEviction = ''noeviction''"

text \<open>\<^verbatim>\<open>strings.ToLower\<close> and \<^verbatim>\<open>strings.EqualFold\<close>, on ASCII.\<close>

definition toLowerChar :: "char \<Rightarrow> char" where
  "toLowerChar c =
     (case map_of (zip ''ABCDEFGHIJKLMNOPQRSTUVWXYZ'' ''abcdefghijklmnopqrstuvwxyz'') c of
        Some d \<Rightarrow> d
      | None \<Rightarrow> c)"

definition ToLower :: "string \<Rightarrow> string" where
  "ToLower s = map toLowerChar s"

definition EqualFold :: "string \<Rightarrow> string \<Rightarrow> bool" where
  "EqualFold a b = (ToLower a = ToLower b)"

subsection \<open>The keyspace store\<close>

text \<open>
  Modelled from the spec: \<^verbatim>\<open>cache.Delete\<close> of the eviction heaps, whose code is not
  among the sources: the key leaves the heap.
\<close>

definition cacheDelete :: "string \<Rightarrow> string list \<Rightarrow> string list" where
  "cacheDelete key cache = removeAll key cache"

text \<open>\<^verbatim>\<open>deleteKey\<close>: the caller holds the store lock. The error it returns is always nil.\<close>

definition deleteKey :: "string \<Rightarrow> 'v server \<Rightarrow> error option \<times> 'v server" where
  "deleteKey key s =
     (let s1 = s\<lparr>store := AList.delete key (store s)\<rparr>;
          s2 = s1\<lparr>keysWithExpiry := filter (\<lambda>k. \<not> (k = key)) (keysWithExpiry s1)\<rparr>;
          s3 = (if EvictionPolicy (config s2) \<in> set [AllKeysLFU, VolatileLFU]
                then s2\<lparr>lfuCache := cacheDelete key (lfuCache s2)\<rparr>
                else if EvictionPolicy (config s2) \<in> set [AllKeysLRU, VolatileLRU]
                then s2\<lparr>lruCache := cacheDelete key (lruCache s2)\<rparr>
                else s2)
      in (None, s3))"

text \<open>
  Modelled from the spec: \<^verbatim>\<open>raftApplyDeleteKey\<close>, the consensus-apply collaborator with
  a delete-key envelope, whose code is not among the sources. Either the apply fails and
  this node is left as it is, or it succeeds and the key is deleted on this node as
  \<^verbatim>\<open>deleteKey\<close> does; \<open>raftApplyFails\<close> says which.
\<close>

definition raftApplyDeleteKey :: "string \<Rightarrow> 'v server \<Rightarrow> error option \<times> 'v server" where
  "raftApplyDeleteKey key s =
     (if raftApplyFails s key then (Some ''raft apply failed'', s) else deleteKey key s)"

text \<open>
  \<^verbatim>\<open>getKeys\<close>: \<^verbatim>\<open>make([]string, len(server.store))\<close> is a slice of that many empty
  strings, and \<^verbatim>\<open>append\<close> adds each key behind them.
\<close>

definition getKeys :: "'v server \<Rightarrow> string list" where
  "getKeys s = foldl (\<lambda>keys (key, _). keys @ [key]) (replicate (length (store s)) '''') (store s)"

fun keysExistLoop :: "string list \<Rightarrow> (string \<rightharpoonup> bool) \<Rightarrow> 'v server \<Rightarrow> (string \<rightharpoonup> bool)" where
  "keysExistLoop [] exists s = exists"
| "keysExistLoop (key # keys) exists s =
     keysExistLoop keys (exists(key \<mapsto> (map_of (store s) key \<noteq> None))) s"

definition keysExist :: "string list \<Rightarrow> 'v server \<Rightarrow> (string \<rightharpoonup> bool)" where
  "keysExist keys s = keysExistLoop keys Map.empty s"

definition getExpiry :: "string \<Rightarrow> 'v server \<Rightarrow> time" where
  "getExpiry key s =
     (case map_of (store s) key of
        None \<Rightarrow> zeroTime
      | Some entry \<Rightarrow> ExpireAt entry)"

text \<open>
  \<^verbatim>\<open>getValues\<close>. The result maps a key to \<open>Some None\<close> where the Go map holds nil
  for it, and to \<open>Some (Some v)\<close> where it holds the value \<open>v\<close>.
\<close>

fun getValuesLoop ::
  "string list \<Rightarrow> (string \<rightharpoonup> 'v option) \<Rightarrow> 'v server \<Rightarrow> (string \<rightharpoonup> 'v option) \<times> 'v server" where
  "getValuesLoop [] values s = (values, s)"
| "getValuesLoop (key # keys) values s =
     (case map_of (store s) key of
        None \<Rightarrow> getValuesLoop keys (values(key \<mapsto> None)) s
      | Some entry \<Rightarrow>
          if ExpireAt entry \<noteq> zeroTime \<and> ExpireAt entry < clock s then
            (let s' =
               (if \<not> isInCluster s then snd (deleteKey key s)
                else if isInCluster s \<and> IsRaftLeader s then snd (raftApplyDeleteKey key s)
                else if isInCluster s \<and> \<not> IsRaftLeader s
                then s\<lparr>forwarded := forwarded s @ [ForwardDeleteKey key]\<rparr>
                else s)
             in getValuesLoop keys (values(key \<mapsto> None)) s')
          else getValuesLoop keys (values(key \<mapsto> Value entry)) s)"

definition getValues :: "string list \<Rightarrow> 'v server \<Rightarrow> (string \<rightharpoonup> 'v option) \<times> 'v server" where
  "getValues keys s =
     (case getValuesLoop keys Map.empty s of
        (values, s') \<Rightarrow> (values, s'\<lparr>spawned := spawned s' @ [GetValuesCacheUpdate keys]\<rparr>))"

text \<open>
  Modelled from the spec: \<^verbatim>\<open>internal.IsMaxMemoryExceeded\<close>, whose code is not among the
  sources: heap-in-use is at or above the configured limit. \<open>heapInuse\<close> is what the
  runtime reports when it is asked.
\<close>

definition IsMaxMemoryExceeded :: "64 word \<Rightarrow> 64 word \<Rightarrow> bool" where
  "IsMaxMemoryExceeded heapInuse maxMemory = (maxMemory \<le> heapInuse)"

text \<open>
  \<^verbatim>\<open>setValues\<close>. \<open>entries\<close> is the argument map as an association list, in the order in
  which \<^verbatim>\<open>range\<close> visits it.
\<close>

fun setValuesLoop :: "(string \<times> 'v option) list \<Rightarrow> 'v server \<Rightarrow> 'v server" where
  "setValuesLoop [] s = s"
| "setValuesLoop ((key, val) # entries) s =
     (let expireAt = (case map_of (store s) key of
                        Some entry \<Rightarrow> ExpireAt entry
                      | None \<Rightarrow> zeroTime);
          s1 = s\<lparr>store := AList.update key \<lparr>Value = val, ExpireAt = expireAt\<rparr> (store s)\<rparr>;
          s2 = (if \<not> isInCluster s1 then s1\<lparr>changeCount := changeCount s1 + 1\<rparr> else s1)
      in setValuesLoop entries s2)"

definition setValues ::
  "64 word \<Rightarrow> (string \<times> 'v option) list \<Rightarrow> 'v server \<Rightarrow> error option \<times> 'v server" where
  "setValues heapInuse entries s =
     (if IsMaxMemoryExceeded heapInuse (MaxMemory (config s))
         \<and> EvictionPolicy (config s) = NoEviction
      then (Some ''max memory reached, key value not set'', s)
      else (let s' = setValuesLoop entries s
            in (None, s'\<lparr>spawned := spawned s' @ [SetValuesCacheUpdate (map fst entries)]\<rparr>)))"

text \<open>
  \<^verbatim>\<open>setExpiry\<close>. \<^verbatim>\<open>server.store[key].Value\<close> reads the zero \<^verbatim>\<open>KeyData\<close> when the
  key is not in the map.
\<close>

definition setExpiry :: "string \<Rightarrow> time \<Rightarrow> bool \<Rightarrow> 'v server \<Rightarrow> 'v server" where
  "setExpiry key expireAt touch s =
     (let old = (case map_of (store s) key of
                   Some entry \<Rightarrow> entry
                 | None \<Rightarrow> zeroKeyData);
          s1 = s\<lparr>store := AList.update key \<lparr>Value = Value old, ExpireAt = expireAt\<rparr> (store s)\<rparr>;
          s2 = (if \<not> (key \<in> set (keysWithExpiry s1))
                then s1\<lparr>keysWithExpiry := keysWithExpiry s1 @ [key]\<rparr>
                else s1)
      in if touch then s2\<lparr>spawned := spawned s2 @ [SetExpiryCacheUpdate key]\<rparr> else s2)"

subsection \<open>Outcomes of a call\<close>

text \<open>
  A call either returns, or it stops: with a panic, blocked for ever on a lock that its
  own thread holds, spinning on a flag that only another thread clears, or because the
  model has no further reading of the heap or no further random number to hand to it
  (\<open>Exhausted\<close>; the call itself may well go on).
\<close>

datatype stop = Panic string | Blocked | Spinning | Exhausted

datatype 'a outcome = Returns 'a | Stops stop

text \<open>
  \<^verbatim>\<open>rand.Intn(n)\<close> panics unless \<open>0 < n\<close>, and otherwise answers a number below
  \<open>n\<close>. \<open>rands\<close> is the supply of random numbers.
\<close>

definition Intn :: "nat \<Rightarrow> nat list \<Rightarrow> (nat \<times> nat list) outcome" where
  "Intn n rands =
     (if n = 0 then Stops (Panic ''invalid argument to Intn'')
      else case rands of
             [] \<Rightarrow> Stops Exhausted
           | r # rands' \<Rightarrow> Returns (r mod n, rands'))"

subsection \<open>The memory governor\<close>

text \<open>
  Modelled from the spec: \<^verbatim>\<open>Len\<close> of the eviction heaps, whose code is not among the
  sources: the number of keys in the heap.
\<close>

definition cacheLen :: "string list \<Rightarrow> nat" where
  "cacheLen cache = length cache"

text \<open>
  Modelled from the spec: \<^verbatim>\<open>heap.Pop\<close> on the eviction heaps, whose code is not among
  the sources: it takes the root, here the head of the list.
\<close>

definition cachePop :: "string list \<Rightarrow> string \<times> string list" where
  "cachePop cache = (hd cache, tl cache)"

text \<open>
  The eviction loops of \<^verbatim>\<open>adjustMemoryUsage\<close>. \<open>heap\<close> holds the values of
  \<^verbatim>\<open>HeapInuse\<close> that the coming calls of \<^verbatim>\<open>runtime.ReadMemStats\<close> report.
\<close>

fun lfuLoop :: "64 word list \<Rightarrow> 'v server \<Rightarrow> (error option \<times> 'v server) outcome" where
  "lfuLoop heap s =
     (if cacheLen (lfuCache s) = 0 then Returns (Some ''adjsutMemoryUsage -> LFU cache empty'', s)
      else
        (case cachePop (lfuCache s) of (key, cache') \<Rightarrow>
          (case (if \<not> isInCluster s then deleteKey key (s\<lparr>lfuCache := cache'\<rparr>)
                 else if isInCluster s \<and> IsRaftLeader s
                 then raftApplyDeleteKey key (s\<lparr>lfuCache := cache'\<rparr>)
                 else (None, s\<lparr>lfuCache := cache'\<rparr>)) of
             (Some err, s') \<Rightarrow> Returns (Some (''adjustMemoryUsage -> LFU cache eviction: '' @ err), s')
           | (None, s') \<Rightarrow>
               (case heap of
                  [] \<Rightarrow> Stops Exhausted
                | h # heap' \<Rightarrow>
                    if h < MaxMemory (config s') then Returns (None, s')
                    else lfuLoop heap' s'))))"

fun lruLoop :: "64 word list \<Rightarrow> 'v server \<Rightarrow> (error option \<times> 'v server) outcome" where
  "lruLoop heap s =
     (if cacheLen (lruCache s) = 0 then Returns (Some ''adjsutMemoryUsage -> LRU cache empty'', s)
      else
        (case cachePop (lruCache s) of (key, cache') \<Rightarrow>
          (case (if \<not> isInCluster s then deleteKey key (s\<lparr>lruCache := cache'\<rparr>)
                 else if isInCluster s \<and> IsRaftLeader s
                 then raftApplyDeleteKey key (s\<lparr>lruCache := cache'\<rparr>)
                 else (None, s\<lparr>lruCache := cache'\<rparr>)) of
             (Some err, s') \<Rightarrow> Returns (Some (''adjustMemoryUsage -> LRU cache eviction: '' @ err), s')
           | (None, s') \<Rightarrow>
               (case heap of
                  [] \<Rightarrow> Stops Exhausted
                | h # heap' \<Rightarrow>
                    if h < MaxMemory (config s') then Returns (None, s')
                    else lruLoop heap' s'))))"

fun volatileRandomLoop ::
  "64 word list \<Rightarrow> nat list \<Rightarrow> 'v server \<Rightarrow> (error option \<times> 'v server) outcome" where
  "volatileRandomLoop heap rands s =
     (case Intn (length (keysWithExpiry s)) rands of
        Stops st \<Rightarrow> Stops st
      | Returns (idx, rands') \<Rightarrow>
          (let key = keysWithExpiry s ! idx in
           (case (if \<not> isInCluster s
                  then (case deleteKey key s of
                          (Some err, s') \<Rightarrow>
                            (Some (''adjustMemoryUsage -> volatile keys random: '' @ err), s')
                        | (None, s') \<Rightarrow> (None, s'))
                  else if isInCluster s \<and> IsRaftLeader s
                  then (case raftApplyDeleteKey key s of
                          (Some err, s') \<Rightarrow>
                            (Some (''adjustMemoryUsage -> volatile keys randome: '' @ err), s')
                        | (None, s') \<Rightarrow> (None, s'))
                  else (None, s)) of
              (Some err, s') \<Rightarrow> Returns (Some err, s')
            | (None, s') \<Rightarrow>
                (case heap of
                   [] \<Rightarrow> Stops Exhausted
                 | h # heap' \<Rightarrow>
                     if h < MaxMemory (config s') then Returns (None, s')
                     else volatileRandomLoop heap' rands' s'))))"

declare lfuLoop.simps [simp del] lruLoop.simps [simp del] volatileRandomLoop.simps [simp del]

text \<open>
  \<^verbatim>\<open>adjustMemoryUsage\<close>: two readings of the heap, then the loop of the policy. The
  function locks \<^verbatim>\<open>storeLock\<close> before it looks at the policy and holds it until it
  returns; the loop of \<^verbatim>\<open>allkeys-random\<close> starts by locking it once more, and the
  call blocks there, before it has looked at the store.
\<close>

definition adjustMemoryUsage ::
  "64 word list \<Rightarrow> nat list \<Rightarrow> 'v server \<Rightarrow> (error option \<times> 'v server) outcome" where
  "adjustMemoryUsage heap rands s =
     (if MaxMemory (config s) = 0 then Returns (None, s)
      else
        (case heap of
           [] \<Rightarrow> Stops Exhausted
         | h1 # heap1 \<Rightarrow>
             (if h1 < MaxMemory (config s) then Returns (None, s)
              else
                (case heap1 of
                   [] \<Rightarrow> Stops Exhausted
                 | h2 # heap2 \<Rightarrow>
                     (if h2 < MaxMemory (config s) then Returns (None, s)
                      else if ToLower (EvictionPolicy (config s)) \<in> set [AllKeysLFU, VolatileLFU]
                      then lfuLoop heap2 s
                      else if ToLower (EvictionPolicy (config s)) \<in> set [AllKeysLRU, VolatileLRU]
                      then lruLoop heap2 s
                      else if ToLower (EvictionPolicy (config s)) \<in> set [AllKeysRandom]
                      then Stops Blocked
                      else if ToLower (EvictionPolicy (config s)) \<in> set [VolatileRandom]
                      then volatileRandomLoop heap2 rands s
                      else Returns (None, s))))))"

subsection \<open>The active TTL sampler\<close>

text \<open>
  The inner loop of the sampling: draw until the key drawn is not among \<open>keys\<close>, the
  slice of the keys sampled so far (whose unfilled places hold the empty string).
\<close>

function pickLoop :: "nat list \<Rightarrow> string list \<Rightarrow> string list \<Rightarrow> (string \<times> nat list) outcome" where
  "pickLoop rands volatile keys =
     (case Intn (length volatile) rands of
        Stops st \<Rightarrow> Stops st
      | Returns (idx, rands') \<Rightarrow>
          (let key = volatile ! idx in
           if \<not> (key \<in> set keys) then Returns (key, rands')
           else pickLoop rands' volatile keys))"
  by pat_completeness auto
termination
  by (relation "measure (\<lambda>(rands, volatile, keys). length rands)")
     (auto simp: Intn_def split: if_splits list.splits)

function sampleLoop ::
  "nat \<Rightarrow> nat list \<Rightarrow> string list \<Rightarrow> string list \<Rightarrow> (string list \<times> nat list) outcome" where
  "sampleLoop i rands volatile keys =
     (if i < length keys then
        (case pickLoop rands volatile keys of
           Stops st \<Rightarrow> Stops st
         | Returns (key, rands') \<Rightarrow> sampleLoop (i + 1) rands' volatile (keys[i := key]))
      else Returns (keys, rands))"
  by pat_completeness auto
termination
  by (relation "measure (\<lambda>(i, rands, volatile, keys). length keys - i)") auto

declare pickLoop.simps [simp del] sampleLoop.simps [simp del]

text \<open>
  The loop over the sampled keys: it counts each of them and deletes it. It returns the
  error of the first delete that fails, or else \<open>deletedCount\<close>.
\<close>

fun deleteLoop :: "string list \<Rightarrow> nat \<Rightarrow> 'v server \<Rightarrow> (error + nat) \<times> 'v server" where
  "deleteLoop [] deletedCount s = (Inr deletedCount, s)"
| "deleteLoop (k # keys) deletedCount s =
     (if \<not> isInCluster s then
        (case deleteKey k s of
           (Some err, s') \<Rightarrow> (Inl (''evictKeysWithExpiredTTL -> standalone delete: '' @ err), s')
         | (None, s') \<Rightarrow> deleteLoop keys (deletedCount + 1) s')
      else if isInCluster s \<and> IsRaftLeader s then
        (case raftApplyDeleteKey k s of
           (Some err, s') \<Rightarrow> (Inl (''evictKeysWithExpiredTTL -> cluster delete: '' @ err), s')
         | (None, s') \<Rightarrow> deleteLoop keys (deletedCount + 1) s')
      else deleteLoop keys (deletedCount + 1) s)"

text \<open>
  One pass of \<^verbatim>\<open>evictKeysWithExpiredTTL\<close>, up to its last decision: \<open>NotLeader\<close> on a
  cluster member that is not the leader, \<open>DeleteFailed\<close> when a delete returned an
  error, and otherwise \<open>Sampled sampleSize deletedCount again\<close>, where \<open>again\<close> says
  whether the function goes on to call itself.
\<close>

datatype 'v pass =
    NotLeader
  | DeleteFailed error "'v server"
  | Sampled nat nat bool "'v server" "nat list"

definition thresholdPercentage :: nat where
  "thresholdPercentage = 20"

text \<open>
  The test that decides whether the function calls itself,
  \<^verbatim>\<open>(deletedCount/sampleSize)*100 >= thresholdPercentage\<close>: both are of type
  \<^verbatim>\<open>int\<close> and not negative, so the division truncates.
\<close>

definition deletionRatioReached :: "nat \<Rightarrow> nat \<Rightarrow> bool" where
  "deletionRatioReached deletedCount sampleSize =
     (thresholdPercentage \<le> (deletedCount div sampleSize) * 100)"

definition evictPass :: "nat list \<Rightarrow> 'v server \<Rightarrow> 'v pass outcome" where
  "evictPass rands s =
     (if isInCluster s \<and> \<not> IsRaftLeader s then Returns NotLeader
      else
        (let sampleSize = (if length (keysWithExpiry s) < EvictionSample (config s)
                           then length (keysWithExpiry s)
                           else EvictionSample (config s))
         in case sampleLoop 0 rands (keysWithExpiry s) (replicate sampleSize '''') of
              Stops st \<Rightarrow> Stops st
            | Returns (keys, rands') \<Rightarrow>
                (case deleteLoop keys 0 s of
                   (Inl err, s') \<Rightarrow> Returns (DeleteFailed err s')
                 | (Inr deletedCount, s') \<Rightarrow>
                     if sampleSize = 0 then Returns (Sampled sampleSize deletedCount False s' rands')
                     else if deletionRatioReached deletedCount sampleSize
                     then Returns (Sampled sampleSize deletedCount True s' rands')
                     else Returns (Sampled sampleSize deletedCount False s' rands'))))"

text \<open>
  The call of \<^verbatim>\<open>evictKeysWithExpiredTTL\<close> to itself. The caller locked \<^verbatim>\<open>storeLock\<close>
  before its loop over the sample and unlocks it by a deferred call, which runs only
  when the caller returns; the lock is not reentrant. So the inner call goes as far as
  its own sampling and then blocks where it locks \<^verbatim>\<open>storeLock\<close>.
\<close>

definition evictKeysWithExpiredTTL_holding_storeLock ::
  "nat list \<Rightarrow> 'v server \<Rightarrow> (error option \<times> 'v server) outcome" where
  "evictKeysWithExpiredTTL_holding_storeLock rands s =
     (if isInCluster s \<and> \<not> IsRaftLeader s then Returns (None, s)
      else
        (let sampleSize = (if length (keysWithExpiry s) < EvictionSample (config s)
                           then length (keysWithExpiry s)
                           else EvictionSample (config s))
         in case sampleLoop 0 rands (keysWithExpiry s) (replicate sampleSize '''') of
              Stops st \<Rightarrow> Stops st
            | Returns (keys, rands') \<Rightarrow> Stops Blocked))"

text \<open>\<^verbatim>\<open>evictKeysWithExpiredTTL\<close>, called while \<^verbatim>\<open>storeLock\<close> is free.\<close>

definition evictKeysWithExpiredTTL ::
  "nat list \<Rightarrow> 'v server \<Rightarrow> (error option \<times> 'v server) outcome" where
  "evictKeysWithExpiredTTL rands s =
     (case evictPass rands s of
        Stops st \<Rightarrow> Stops st
      | Returns NotLeader \<Rightarrow> Returns (None, s)
      | Returns (DeleteFailed err s') \<Rightarrow> Returns (Some err, s')
      | Returns (Sampled sampleSize deletedCount again s' rands') \<Rightarrow>
          if again then evictKeysWithExpiredTTL_holding_storeLock rands' s'
          else Returns (None, s'))"

subsection \<open>The command dispatcher\<close>

text \<open>
  A command of the registry, with the fields the dispatcher reads. A handler takes the
  decoded command and works on the server through the callbacks it is given; it returns
  an error or the response.
\<close>

record 'v SubCommand =
  SubCommand_Command :: string
  SubCommand_Categories :: "string list"
  SubCommand_Sync :: bool
  SubCommand_HandlerFunc :: "string list \<Rightarrow> 'v server \<Rightarrow> (error + string) \<times> 'v server"

record 'v Command =
  Command :: string
  Categories :: "string list"
  SubCommands :: "'v SubCommand list"
  Sync :: bool
  HandlerFunc :: "string list \<Rightarrow> 'v server \<Rightarrow> (error + string) \<times> 'v server"

text \<open>
  What \<^verbatim>\<open>handleCommand\<close> calls and the sources do not hold, taken as it comes:
  \<^verbatim>\<open>internal.Decode\<close>; \<^verbatim>\<open>internal.GetSubCommand\<close> (an error, or the sub-command if
  the command has a matching one); \<^verbatim>\<open>server.acl\<close> with its \<^verbatim>\<open>AuthorizeConnection\<close>
  (\<open>None\<close> when there is no ACL); \<^verbatim>\<open>internal.IsWriteCommand\<close>; and
  \<^verbatim>\<open>raftApplyCommand\<close>. A sub-command that is not there is \<open>None\<close>.
\<close>

record 'v collaborators =
  Decode :: "string \<Rightarrow> error + string list"
  GetSubCommand :: "'v Command \<Rightarrow> string list \<Rightarrow> error + 'v SubCommand option"
  acl :: "(nat \<Rightarrow> string list \<Rightarrow> 'v Command \<Rightarrow> 'v SubCommand option \<Rightarrow> error option) option"
  IsWriteCommand :: "'v Command \<Rightarrow> 'v SubCommand option \<Rightarrow> bool"
  raftApplyCommand :: "string list \<Rightarrow> 'v server \<Rightarrow> (error + string) \<times> 'v server"

text \<open>
  Modelled from the spec: \<^verbatim>\<open>constants.OkResponse\<close>, which is not among the sources:
  the literal \<^verbatim>\<open>+OK\<close>.
\<close>

definition OkResponse :: string where
  "OkResponse = ''+OK''"

fun getCommand :: "'v Command list \<Rightarrow> string \<Rightarrow> error + 'v Command" where
  "getCommand [] cmd = Inl (''command '' @ cmd @ '' not supported'')"
| "getCommand (command # commands) cmd =
     (if EqualFold (Command command) cmd then Inr command else getCommand commands cmd)"

text \<open>
  \<^verbatim>\<open>handleCommand\<close>. \<open>conn\<close> is \<open>None\<close> for a nil connection. The wait for the
  state copy spins until another thread clears \<open>stateCopyInProgress\<close>; on one thread
  it does not end when the flag is set (\<open>Stops Spinning\<close>).
\<close>

definition handleCommand ::
  "'v collaborators \<Rightarrow> 'v Command list \<Rightarrow> string \<Rightarrow> nat option \<Rightarrow> bool \<Rightarrow> bool \<Rightarrow> 'v server
     \<Rightarrow> ((error + string) \<times> 'v server) outcome" where
  "handleCommand env commands message conn replay embedded s =
     (case Decode env message of
        Inl err \<Rightarrow> Returns (Inl err, s)
      | Inr cmd \<Rightarrow>
          if length cmd = 0 then Returns (Inl ''empty command'', s)
          else if EqualFold (cmd ! 0) ''quit'' then Returns (Inl ''EOF'', s)
          else
            (case getCommand commands (cmd ! 0) of
               Inl err \<Rightarrow> Returns (Inl err, s)
             | Inr command \<Rightarrow>
                 (case GetSubCommand env command cmd of
                    Inl err \<Rightarrow> Returns (Inl err, s)
                  | Inr subCommand \<Rightarrow>
                      (let synchronize = (case subCommand of
                                            Some sc \<Rightarrow> SubCommand_Sync sc
                                          | None \<Rightarrow> Sync command);
                           handler = (case subCommand of
                                        Some sc \<Rightarrow> SubCommand_HandlerFunc sc
                                      | None \<Rightarrow> HandlerFunc command);
                           denied = (case (conn, acl env) of
                                       (Some c, Some authorizeConnection) \<Rightarrow>
                                         if \<not> embedded then authorizeConnection c cmd command subCommand
                                         else None
                                     | _ \<Rightarrow> None)
                       in case denied of
                            Some err \<Rightarrow> Returns (Inl err, s)
                          | None \<Rightarrow>
                              if IsWriteCommand env command subCommand \<and> stateCopyInProgress s
                              then Stops Spinning
                              else
                                (let s1 = (if IsWriteCommand env command subCommand
                                           then s\<lparr>stateMutationInProgress := True\<rparr>
                                           else s)
                                 in if \<not> isInCluster s1 \<or> \<not> synchronize then
                                      (case handler cmd s1 of
                                         (Inl err, s2) \<Rightarrow> Returns (Inl err, s2)
                                       | (Inr res, s2) \<Rightarrow>
                                           (let s3 = (if IsWriteCommand env command subCommand \<and> \<not> replay
                                                      then s2\<lparr>spawned := spawned s2 @ [QueueCommand message]\<rparr>
                                                      else s2)
                                            in Returns (Inr res, s3\<lparr>stateMutationInProgress := False\<rparr>)))
                                    else if IsRaftLeader s1 then
                                      (case raftApplyCommand env cmd s1 of
                                         (Inl err, s2) \<Rightarrow> Returns (Inl err, s2)
                                       | (Inr res, s2) \<Rightarrow> Returns (Inr res, s2))
                                    else if ForwardCommand (config s1) then
                                      Returns (Inr OkResponse,
                                               s1\<lparr>forwarded := forwarded s1 @ [ForwardDataMutation message]\<rparr>)
                                    else
                                      Returns (Inl ''not cluster leader, cannot carry out command'', s1))))))"

subsection \<open>A server to run the examples on\<close>

text \<open>
  A standalone server with nothing stored: a memory limit of 1000 bytes, the policy
  \<^verbatim>\<open>noeviction\<close>, a sample of 20 keys.
\<close>

definition standalone :: "string server" where
  "standalone =
     \<lparr>config = \<lparr>MaxMemory = 1000, EvictionPolicy = NoEviction, EvictionSample = 20,
                ForwardCommand = False\<rparr>,
      isInCluster = False, IsRaftLeader = False, raftApplyFails = (\<lambda>key. False),
      clock = 1000, store = [], keysWithExpiry = [], lfuCache = [], lruCache = [],
      stateCopyInProgress = False, stateMutationInProgress = False, changeCount = 0,
      forwarded = [], spawned = []\<rparr>"

section \<open>Properties\<close>

subsection \<open>What \<^verbatim>\<open>deleteKey\<close> changes\<close>

lemma deleteKey_error [simp]: "fst (deleteKey key s) = None"
  by (simp add: deleteKey_def Let_def)

lemma deleteKey_store [simp]: "store (snd (deleteKey key s)) = AList.delete key (store s)"
  by (simp add: deleteKey_def Let_def)

lemma deleteKey_keysWithExpiry [simp]:
  "keysWithExpiry (snd (deleteKey key s)) = filter (\<lambda>k. k \<noteq> key) (keysWithExpiry s)"
  by (simp add: deleteKey_def Let_def)

lemma deleteKey_frame [simp]:
  "clock (snd (deleteKey key s)) = clock s"
  "config (snd (deleteKey key s)) = config s"
  "isInCluster (snd (deleteKey key s)) = isInCluster s"
  "IsRaftLeader (snd (deleteKey key s)) = IsRaftLeader s"
  "raftApplyFails (snd (deleteKey key s)) = raftApplyFails s"
  "forwarded (snd (deleteKey key s)) = forwarded s"
  "stateCopyInProgress (snd (deleteKey key s)) = stateCopyInProgress s"
  "stateMutationInProgress (snd (deleteKey key s)) = stateMutationInProgress s"
  by (simp_all add: deleteKey_def Let_def)

lemma raftApplyDeleteKey_frame [simp]:
  "clock (snd (raftApplyDeleteKey key s)) = clock s"
  "config (snd (raftApplyDeleteKey key s)) = config s"
  "isInCluster (snd (raftApplyDeleteKey key s)) = isInCluster s"
  "IsRaftLeader (snd (raftApplyDeleteKey key s)) = IsRaftLeader s"
  "raftApplyFails (snd (raftApplyDeleteKey key s)) = raftApplyFails s"
  "forwarded (snd (raftApplyDeleteKey key s)) = forwarded s"
  by (simp_all add: raftApplyDeleteKey_def)

lemma raftApplyDeleteKey_store:
  "store (snd (raftApplyDeleteKey key s)) =
     (if raftApplyFails s key then store s else AList.delete key (store s))"
  by (simp add: raftApplyDeleteKey_def)


subsection \<open>The lazy expiry of \<^verbatim>\<open>getValues\<close>\<close>

text \<open>
  While \<^verbatim>\<open>getValues\<close> runs, the store differs from the store \<open>s0\<close> it started from
  only in that entries of \<open>s0\<close> whose expiry has passed may be gone.
\<close>

lemma getValuesLoop_values:
  fixes s0 :: "'v server"
  defines "answer \<equiv> \<lambda>k. (case map_of (store s0) k of
                              None \<Rightarrow> None
                            | Some entry \<Rightarrow>
                                if ExpireAt entry \<noteq> zeroTime \<and> ExpireAt entry < clock s0 then None
                                else Value entry)"
  assumes clk0: "clock s = clock s0"
    and st0: "\<And>k. map_of (store s) k = map_of (store s0) k \<or>
              (map_of (store s) k = None \<and>
               (\<exists>e. map_of (store s0) k = Some e \<and> ExpireAt e \<noteq> zeroTime \<and> ExpireAt e < clock s0))"
  shows "fst (getValuesLoop keys values s) key =
           (if key \<in> set keys then Some (answer key) else values key)"
  using clk0 st0
proof (induction keys arbitrary: "values" s)
  case Nil
  show ?case by simp
next
  case (Cons k keys)
  note clk = Cons.prems(1) and st = Cons.prems(2)
  have step: "\<exists>s'. getValuesLoop (k # keys) values s = getValuesLoop keys (values(k \<mapsto> answer k)) s'
                \<and> clock s' = clock s0
                \<and> (\<forall>k. map_of (store s') k = map_of (store s0) k \<or>
                      (map_of (store s') k = None \<and>
                       (\<exists>e. map_of (store s0) k = Some e \<and> ExpireAt e \<noteq> zeroTime
                            \<and> ExpireAt e < clock s0)))"
  proof (cases "map_of (store s) k")
    case None
    with st [of k] have "answer k = None"
      by (auto simp: answer_def)
    with None clk st show ?thesis
      by (intro exI [of _ s]) simp
  next
    case (Some e)
    with st [of k] have e0: "map_of (store s0) k = Some e"
      by auto
    show ?thesis
    proof (cases "ExpireAt e \<noteq> zeroTime \<and> ExpireAt e < clock s")
      case False
      with e0 clk have "answer k = Value e"
        by (auto simp: answer_def)
      moreover from Some False
      have "getValuesLoop (k # keys) values s = getValuesLoop keys (values(k \<mapsto> Value e)) s"
        by auto
      ultimately show ?thesis
        using clk st by (intro exI [of _ s]) simp
    next
      case True
      with e0 clk have a: "answer k = None"
        by (auto simp: answer_def)
      define s' where
        "s' = (if \<not> isInCluster s then snd (deleteKey k s)
               else if isInCluster s \<and> IsRaftLeader s then snd (raftApplyDeleteKey k s)
               else if isInCluster s \<and> \<not> IsRaftLeader s
               then s\<lparr>forwarded := forwarded s @ [ForwardDeleteKey k]\<rparr>
               else s)"
      have eq: "getValuesLoop (k # keys) values s = getValuesLoop keys (values(k \<mapsto> answer k)) s'"
        using Some True a by (simp add: s'_def Let_def)
      have clk': "clock s' = clock s0"
        using clk by (simp add: s'_def)
      have "store s' = store s \<or> store s' = AList.delete k (store s)"
        by (simp add: s'_def raftApplyDeleteKey_store)
      then have st': "map_of (store s') j = map_of (store s0) j \<or>
              (map_of (store s') j = None \<and>
               (\<exists>e. map_of (store s0) j = Some e \<and> ExpireAt e \<noteq> zeroTime \<and> ExpireAt e < clock s0))"
        for j
      proof
        assume "store s' = store s"
        with st [of j] show ?thesis by simp
      next
        assume del: "store s' = AList.delete k (store s)"
        show ?thesis
        proof (cases "j = k")
          case True
          with del e0 \<open>ExpireAt e \<noteq> zeroTime \<and> ExpireAt e < clock s\<close> clk show ?thesis
            by (simp add: delete_conv')
        next
          case False
          with del st [of j] show ?thesis
            by (simp add: delete_conv')
        qed
      qed
      from eq clk' st' show ?thesis by blast
    qed
  qed
  then obtain s' where eq: "getValuesLoop (k # keys) values s = getValuesLoop keys (values(k \<mapsto> answer k)) s'"
    and clk': "clock s' = clock s0"
    and st': "\<And>k. map_of (store s') k = map_of (store s0) k \<or>
                 (map_of (store s') k = None \<and>
                  (\<exists>e. map_of (store s0) k = Some e \<and> ExpireAt e \<noteq> zeroTime \<and> ExpireAt e < clock s0))"
    by blast
  have "fst (getValuesLoop (k # keys) values s) key =
          fst (getValuesLoop keys (values(k \<mapsto> answer k)) s') key"
    by (simp only: eq)
  also have "\<dots> = (if key \<in> set keys then Some (answer key) else (values(k \<mapsto> answer k)) key)"
    by (rule Cons.IH [OF clk' st'])
  also have "\<dots> = (if key \<in> set (k # keys) then Some (answer key) else values key)"
    by auto
  finally show ?case .
qed

lemma getValuesLoop_frame:
  "clock (snd (getValuesLoop keys values s)) = clock s \<and>
   isInCluster (snd (getValuesLoop keys values s)) = isInCluster s \<and>
   IsRaftLeader (snd (getValuesLoop keys values s)) = IsRaftLeader s \<and>
   raftApplyFails (snd (getValuesLoop keys values s)) = raftApplyFails s"
proof (induction keys arbitrary: "values" s)
  case Nil
  show ?case by simp
next
  case (Cons k keys)
  show ?case
  proof (cases "map_of (store s) k")
    case None
    with Cons.IH show ?thesis by simp
  next
    case (Some e)
    with Cons.IH show ?thesis by (simp add: Let_def)
  qed
qed

text \<open>
  The store after the loop: an entry is gone exactly if its key was asked for, its expiry
  had passed, and this node deletes (it stands alone, or it leads and the apply went
  through).
\<close>

lemma getValuesLoop_store:
  fixes s :: "'v server"
  defines "gone \<equiv> \<lambda>(s :: 'v server) k.
             (case map_of (store s) k of
                None \<Rightarrow> False
              | Some entry \<Rightarrow> ExpireAt entry \<noteq> zeroTime \<and> ExpireAt entry < clock s)
             \<and> (\<not> isInCluster s \<or> (IsRaftLeader s \<and> \<not> raftApplyFails s k))"
  shows "map_of (store (snd (getValuesLoop keys values s))) j =
           (if j \<in> set keys \<and> gone s j then None else map_of (store s) j)"
proof (induction keys arbitrary: "values" s)
  case Nil
  show ?case by simp
next
  case (Cons k keys)
  define s' where
    "s' = (if gone s k then snd (deleteKey k s)
           else if (case map_of (store s) k of
                      None \<Rightarrow> False
                    | Some entry \<Rightarrow> ExpireAt entry \<noteq> zeroTime \<and> ExpireAt entry < clock s)
                   \<and> isInCluster s \<and> \<not> IsRaftLeader s
           then s\<lparr>forwarded := forwarded s @ [ForwardDeleteKey k]\<rparr>
           else s)"
  define values' where
    "values' = values(k \<mapsto> (case map_of (store s) k of
                                 None \<Rightarrow> None
                               | Some entry \<Rightarrow>
                                   if ExpireAt entry \<noteq> zeroTime \<and> ExpireAt entry < clock s then None
                                   else Value entry))"
  have eq: "snd (getValuesLoop (k # keys) values s) = snd (getValuesLoop keys values' s')"
    by (cases "map_of (store s) k")
       (auto simp: s'_def values'_def gone_def Let_def raftApplyDeleteKey_def)
  have st: "map_of (store s') i = (if i = k \<and> gone s k then None else map_of (store s) i)" for i
    by (simp add: s'_def delete_conv')
  have fr: "clock s' = clock s" "isInCluster s' = isInCluster s" "IsRaftLeader s' = IsRaftLeader s"
    "raftApplyFails s' = raftApplyFails s"
    by (simp_all add: s'_def)
  have g: "gone s' i = (gone s i \<and> \<not> (i = k \<and> gone s k))" for i
    by (auto simp: gone_def st fr split: option.splits)
  have "map_of (store (snd (getValuesLoop (k # keys) values s))) j =
          (if j \<in> set keys \<and> gone s' j then None else map_of (store s') j)"
    by (simp only: eq Cons.IH)
  also have "\<dots> = (if j \<in> set (k # keys) \<and> gone s j then None else map_of (store s) j)"
    by (auto simp: g st)
  finally show ?case .
qed

text \<open>
  On a cluster member that does not lead, the keys whose expiry had passed are handed on
  to the leader, in the order asked.
\<close>

lemma getValuesLoop_forwarded:
  assumes "isInCluster s" and "\<not> IsRaftLeader s"
  shows "forwarded (snd (getValuesLoop keys values s)) =
           forwarded s @ map ForwardDeleteKey
             (filter (\<lambda>k. case map_of (store s) k of
                             None \<Rightarrow> False
                           | Some entry \<Rightarrow> ExpireAt entry \<noteq> zeroTime \<and> ExpireAt entry < clock s)
                keys)"
  using assms
proof (induction keys arbitrary: "values" s)
  case Nil
  show ?case by simp
next
  case (Cons k keys)
  show ?case
  proof (cases "map_of (store s) k")
    case None
    with Cons show ?thesis by simp
  next
    case (Some e)
    show ?thesis
    proof (cases "ExpireAt e \<noteq> zeroTime \<and> ExpireAt e < clock s")
      case False
      with Some Cons.prems Cons.IH [of s] show ?thesis by auto
    next
      case True
      define s1 where "s1 = s\<lparr>forwarded := forwarded s @ [ForwardDeleteKey k]\<rparr>"
      have s1: "store s1 = store s" "clock s1 = clock s"
        "forwarded s1 = forwarded s @ [ForwardDeleteKey k]" "isInCluster s1" "\<not> IsRaftLeader s1"
        using Cons.prems by (simp_all add: s1_def)
      have "getValuesLoop (k # keys) values s = getValuesLoop keys (values(k \<mapsto> None)) s1"
        using Some True Cons.prems by (simp add: s1_def)
      then have "forwarded (snd (getValuesLoop (k # keys) values s)) =
                   forwarded (snd (getValuesLoop keys (values(k \<mapsto> None)) s1))"
        by (simp only:)
      also note Cons.IH [OF s1(4,5), of "values(k \<mapsto> None)"]
      finally show ?thesis
        using Some True by (simp add: s1(1-3) cong: option.case_cong)
    qed
  qed
qed

text \<open>
  Claim C1. For every list of keys and every key in it, \<^verbatim>\<open>getValues\<close> answers nil
  when the key is not in the store, nil when the entry's \<^verbatim>\<open>ExpireAt\<close> is set and lies
  before the clock, and the stored value otherwise; so an entry whose expiry has passed
  is never answered as a value. In the second case the deletion is triggered: a
  standalone node deletes the entry, a leader deletes it unless the consensus apply
  fails, and any other cluster member hands the key on to the leader.
\<close>

theorem getValues_lazy_expiry:
  assumes "key \<in> set keys"
  shows "fst (getValues keys s) key =
           Some (case map_of (store s) key of
                   None \<Rightarrow> None
                 | Some entry \<Rightarrow>
                     if ExpireAt entry \<noteq> zeroTime \<and> ExpireAt entry < clock s then None
                     else Value entry)
         \<and> (\<forall>entry. map_of (store s) key = Some entry \<and> ExpireAt entry \<noteq> zeroTime
                       \<and> ExpireAt entry < clock s \<longrightarrow>
                (if \<not> isInCluster s then map_of (store (snd (getValues keys s))) key = None
                 else if IsRaftLeader s
                 then raftApplyFails s key \<or> map_of (store (snd (getValues keys s))) key = None
                 else ForwardDeleteKey key \<in> set (forwarded (snd (getValues keys s)))))"
proof -
  obtain vs s' where loop: "getValuesLoop keys Map.empty s = (vs, s')"
    by (cases "getValuesLoop keys Map.empty s")
  then have res: "fst (getValues keys s) = vs" "store (snd (getValues keys s)) = store s'"
    "forwarded (snd (getValues keys s)) = forwarded s'"
    by (simp_all add: getValues_def)
  have "fst (getValuesLoop keys Map.empty s) key =
          Some (case map_of (store s) key of
                  None \<Rightarrow> None
                | Some entry \<Rightarrow>
                    if ExpireAt entry \<noteq> zeroTime \<and> ExpireAt entry < clock s then None
                    else Value entry)"
    using assms by (simp add: getValuesLoop_values [of s s])
  with loop res have answer: "fst (getValues keys s) key =
          Some (case map_of (store s) key of
                  None \<Rightarrow> None
                | Some entry \<Rightarrow>
                    if ExpireAt entry \<noteq> zeroTime \<and> ExpireAt entry < clock s then None
                    else Value entry)"
    by simp
  have triggered:
    "if \<not> isInCluster s then map_of (store (snd (getValues keys s))) key = None
     else if IsRaftLeader s
     then raftApplyFails s key \<or> map_of (store (snd (getValues keys s))) key = None
     else ForwardDeleteKey key \<in> set (forwarded (snd (getValues keys s)))"
    if e: "map_of (store s) key = Some entry" "ExpireAt entry \<noteq> zeroTime" "ExpireAt entry < clock s"
    for entry
  proof -
    have st: "map_of (store s') key =
                (if \<not> isInCluster s \<or> (IsRaftLeader s \<and> \<not> raftApplyFails s key) then None
                 else map_of (store s) key)"
      using getValuesLoop_store [of keys Map.empty s key] loop assms e by simp
    have fw: "ForwardDeleteKey key \<in> set (forwarded s')" if "isInCluster s" "\<not> IsRaftLeader s"
      using getValuesLoop_forwarded [OF that, of keys Map.empty] loop assms e by simp
    from st fw show ?thesis
      by (auto simp: res)
  qed
  from answer triggered show ?thesis
    by blast
qed

theorem getValues_lazy_expiry_witness:
  "''a'' \<in> set [''a'', ''b'']
   \<and> fst (getValues [''a'', ''b'']
            (standalone\<lparr>store := [(''a'', \<lparr>Value = Some ''x'', ExpireAt = 50\<rparr>),
                                 (''b'', \<lparr>Value = Some ''y'', ExpireAt = 0\<rparr>)]\<rparr>)) ''a'' = Some None
   \<and> map_of (store (snd (getValues [''a'', ''b'']
            (standalone\<lparr>store := [(''a'', \<lparr>Value = Some ''x'', ExpireAt = 50\<rparr>),
                                 (''b'', \<lparr>Value = Some ''y'', ExpireAt = 0\<rparr>)]\<rparr>)))) ''a'' = None"
  using getValues_lazy_expiry [of "''a''" "[''a'', ''b'']"
      "standalone\<lparr>store := [(''a'', \<lparr>Value = Some ''x'', ExpireAt = 50\<rparr>),
                           (''b'', \<lparr>Value = Some ''y'', ExpireAt = 0\<rparr>)]\<rparr>"]
  by (simp add: standalone_def zeroTime_def)

subsection \<open>\<^verbatim>\<open>setValues\<close>\<close>

text \<open>
  Claim C3. \<^verbatim>\<open>setValues\<close> returns the max-memory error exactly when heap-in-use is at
  or above the configured limit and the policy is \<^verbatim>\<open>noeviction\<close>; it returns no
  other error; and when it returns the error the server, and so the store with every
  entry's value and expiry, is as it was.
\<close>

theorem setValues_max_memory:
  "(if MaxMemory (config s) \<le> heapInuse \<and> EvictionPolicy (config s) = NoEviction
    then setValues heapInuse entries s = (Some ''max memory reached, key value not set'', s)
    else fst (setValues heapInuse entries s) = None)"
  by (simp add: setValues_def IsMaxMemoryExceeded_def Let_def)

theorem setValues_max_memory_witness:
  "setValues 2000 [(''k'', Some ''new'')]
     (standalone\<lparr>store := [(''k'', \<lparr>Value = Some ''old'', ExpireAt = 5000\<rparr>)]\<rparr>)
     = (Some ''max memory reached, key value not set'',
        standalone\<lparr>store := [(''k'', \<lparr>Value = Some ''old'', ExpireAt = 5000\<rparr>)]\<rparr>)
   \<and> fst (setValues 50 [(''k'', Some ''new'')]
            (standalone\<lparr>store := [(''k'', \<lparr>Value = Some ''old'', ExpireAt = 5000\<rparr>)]\<rparr>)) = None"
  using setValues_max_memory [of "standalone\<lparr>store := [(''k'', \<lparr>Value = Some ''old'', ExpireAt = 5000\<rparr>)]\<rparr>" 2000 "[(''k'', Some ''new'')]"]
    setValues_max_memory [of "standalone\<lparr>store := [(''k'', \<lparr>Value = Some ''old'', ExpireAt = 5000\<rparr>)]\<rparr>" 50 "[(''k'', Some ''new'')]"]
  by (simp add: standalone_def)

lemma setValuesLoop_store:
  "map_of (store (setValuesLoop entries s)) k =
     (case map_of (rev entries) k of
        None \<Rightarrow> map_of (store s) k
      | Some v \<Rightarrow>
          Some \<lparr>Value = v,
                ExpireAt = (case map_of (store s) k of
                              Some entry \<Rightarrow> ExpireAt entry
                            | None \<Rightarrow> zeroTime)\<rparr>)"
proof (induction entries arbitrary: s)
  case Nil
  show ?case by simp
next
  case (Cons kv entries)
  obtain key val where kv: "kv = (key, val)" by (cases kv)
  define expireAt where
    "expireAt = (case map_of (store s) key of Some entry \<Rightarrow> ExpireAt entry | None \<Rightarrow> zeroTime)"
  define s2 where
    "s2 = (if \<not> isInCluster s
           then s\<lparr>store := AList.update key \<lparr>Value = val, ExpireAt = expireAt\<rparr> (store s),
                  changeCount := changeCount s + 1\<rparr>
           else s\<lparr>store := AList.update key \<lparr>Value = val, ExpireAt = expireAt\<rparr> (store s)\<rparr>)"
  have eq: "setValuesLoop (kv # entries) s = setValuesLoop entries s2"
    by (simp add: kv s2_def expireAt_def Let_def)
  have st: "map_of (store s2) = (map_of (store s))(key \<mapsto> \<lparr>Value = val, ExpireAt = expireAt\<rparr>)"
    by (simp add: s2_def update_conv')
  have ex: "(case map_of (store s2) k of Some entry \<Rightarrow> ExpireAt entry | None \<Rightarrow> zeroTime) =
            (case map_of (store s) k of Some entry \<Rightarrow> ExpireAt entry | None \<Rightarrow> zeroTime)"
    by (simp add: st expireAt_def)
  show ?case
    unfolding eq Cons.IH [of s2] ex
    by (auto simp: kv st expireAt_def map_add_def split: option.splits)
qed

text \<open>
  Claim C8. When \<^verbatim>\<open>setValues\<close> sets a key that the store holds, the entry gets the new
  value and keeps its \<^verbatim>\<open>ExpireAt\<close>; when the store does not hold the key, the new
  entry has no expiry. The keys of the argument map are distinct, as those of a Go map are.
\<close>

theorem setValues_keeps_expiry:
  assumes "fst (setValues heapInuse entries s) = None"
    and "distinct (map fst entries)"
    and "(key, val) \<in> set entries"
  shows "map_of (store (snd (setValues heapInuse entries s))) key =
           Some \<lparr>Value = val,
                 ExpireAt = (case map_of (store s) key of
                               Some entry \<Rightarrow> ExpireAt entry
                             | None \<Rightarrow> zeroTime)\<rparr>"
proof -
  from assms(1) have "store (snd (setValues heapInuse entries s)) = store (setValuesLoop entries s)"
    by (auto simp: setValues_def Let_def split: if_splits)
  moreover from assms(2,3) have "map_of (rev entries) key = Some val"
    by (simp add: rev_map [symmetric])
  ultimately show ?thesis
    by (simp add: setValuesLoop_store)
qed

theorem setValues_keeps_expiry_witness:
  "fst (setValues 50 [(''k'', Some ''v2''), (''n'', Some ''w'')]
         (standalone\<lparr>store := [(''k'', \<lparr>Value = Some ''v1'', ExpireAt = 5000\<rparr>)]\<rparr>)) = None
   \<and> distinct (map fst [(''k'', Some ''v2''), (''n'', Some ''w'')])
   \<and> (''k'', Some ''v2'') \<in> set [(''k'', Some ''v2''), (''n'', Some ''w'')]
   \<and> map_of (store (snd (setValues 50 [(''k'', Some ''v2''), (''n'', Some ''w'')]
         (standalone\<lparr>store := [(''k'', \<lparr>Value = Some ''v1'', ExpireAt = 5000\<rparr>)]\<rparr>)))) ''k''
       = Some \<lparr>Value = Some ''v2'', ExpireAt = 5000\<rparr>"
proof -
  have ok: "fst (setValues 50 [(''k'', Some ''v2''), (''n'', Some ''w'')]
         (standalone\<lparr>store := [(''k'', \<lparr>Value = Some ''v1'', ExpireAt = 5000\<rparr>)]\<rparr>)) = None"
    by (simp add: setValues_def IsMaxMemoryExceeded_def standalone_def NoEviction_def Let_def)
  have d: "distinct (map fst [(''k'', Some ''v2''), (''n'', Some ''w'')])"
    by simp
  have m: "(''k'', Some ''v2'') \<in> set [(''k'', Some ''v2''), (''n'', Some ''w'')]"
    by simp
  from setValues_keeps_expiry [OF ok d m] ok d m show ?thesis
    by (simp add: standalone_def)
qed

subsection \<open>\<^verbatim>\<open>setExpiry\<close> and the index of volatile keys\<close>

lemma setExpiry_keysWithExpiry:
  "keysWithExpiry (setExpiry key expireAt touch s) =
     (if key \<in> set (keysWithExpiry s) then keysWithExpiry s else keysWithExpiry s @ [key])"
  by (simp add: setExpiry_def Let_def)

lemma setExpiry_store:
  "map_of (store (setExpiry key expireAt touch s)) =
     (map_of (store s))
       (key \<mapsto> \<lparr>Value = (case map_of (store s) key of Some entry \<Rightarrow> Value entry | None \<Rightarrow> None),
                  ExpireAt = expireAt\<rparr>)"
  by (simp add: setExpiry_def Let_def update_conv' zeroKeyData_def split: option.splits)

text \<open>The index holds no key twice: every operation that writes it keeps it so.\<close>

lemma setExpiry_distinct:
  "distinct (keysWithExpiry s) \<Longrightarrow> distinct (keysWithExpiry (setExpiry key expireAt touch s))"
  by (simp add: setExpiry_keysWithExpiry)

lemma deleteKey_distinct:
  "distinct (keysWithExpiry s) \<Longrightarrow> distinct (keysWithExpiry (snd (deleteKey key s)))"
  by simp

lemma setExpiry_count:
  "count_list (keysWithExpiry (setExpiry key expireAt touch s)) key =
     (if key \<in> set (keysWithExpiry s) then count_list (keysWithExpiry s) key else 1)"
  by (simp add: setExpiry_keysWithExpiry count_list_0_iff)

text \<open>
  Claim C9. Adding a key to the index of volatile keys is idempotent: \<^verbatim>\<open>setExpiry\<close>
  leaves the index as it is when it holds the key already, and after any sequence of
  one or more \<^verbatim>\<open>setExpiry\<close> calls on a key the index holds it exactly once. (The index
  held it at most once before, as every index does that these functions have built up
  from the empty one.)
\<close>

theorem setExpiry_index_once:
  assumes "count_list (keysWithExpiry s) key \<le> 1" and "calls \<noteq> []"
  shows "count_list
           (keysWithExpiry (foldl (\<lambda>s (expireAt, touch). setExpiry key expireAt touch s) s calls))
           key = 1
         \<and> (key \<in> set (keysWithExpiry s) \<longrightarrow>
              keysWithExpiry (foldl (\<lambda>s (expireAt, touch). setExpiry key expireAt touch s) s calls)
                = keysWithExpiry s)"
  using assms
proof (induction calls arbitrary: s)
  case Nil
  then show ?case by simp
next
  case (Cons c calls)
  obtain expireAt touch where c: "c = (expireAt, touch)" by (cases c)
  define s1 where "s1 = setExpiry key expireAt touch s"
  have one: "count_list (keysWithExpiry s1) key = 1"
    using Cons.prems(1) by (auto simp: s1_def setExpiry_count count_list_0_iff le_Suc_eq)
  have mem: "key \<in> set (keysWithExpiry s1)"
    by (simp add: s1_def setExpiry_keysWithExpiry)
  have same: "key \<in> set (keysWithExpiry s) \<Longrightarrow> keysWithExpiry s1 = keysWithExpiry s"
    by (simp add: s1_def setExpiry_keysWithExpiry)
  show ?case
  proof (cases "calls = []")
    case True
    with one same show ?thesis by (simp add: c s1_def)
  next
    case False
    from Cons.IH [OF _ False, of s1] one mem same show ?thesis
      by (simp add: c s1_def)
  qed
qed

theorem setExpiry_index_once_witness:
  "count_list (keysWithExpiry standalone) ''k'' \<le> 1
   \<and> [(5000, False), (6000, True), (7000, False)] \<noteq> []
   \<and> count_list
        (keysWithExpiry (foldl (\<lambda>s (expireAt, touch). setExpiry ''k'' expireAt touch s) standalone
           [(5000, False), (6000, True), (7000, False)]))
        ''k'' = 1"
proof -
  have h: "count_list (keysWithExpiry standalone) ''k'' \<le> 1"
    by (simp add: standalone_def)
  have n: "[(5000 :: time, False), (6000, True), (7000, False)] \<noteq> []"
    by simp
  from setExpiry_index_once [OF h n] h show ?thesis
    by simp
qed

text \<open>
  Claim C10. \<^verbatim>\<open>setExpiry\<close> on a key that the store does not hold makes an entry for
  it with the value nil and the given instant as \<^verbatim>\<open>ExpireAt\<close>, and the key is in the
  index of volatile keys afterwards. There is no error that it could return.
\<close>

theorem setExpiry_absent_key:
  assumes "map_of (store s) key = None"
  shows "map_of (store (setExpiry key expireAt touch s)) key = Some \<lparr>Value = None, ExpireAt = expireAt\<rparr>
         \<and> key \<in> set (keysWithExpiry (setExpiry key expireAt touch s))"
  using assms by (simp add: setExpiry_store setExpiry_keysWithExpiry)

theorem setExpiry_absent_key_witness:
  "map_of (store standalone) ''k'' = None
   \<and> map_of (store (setExpiry ''k'' 5000 False standalone)) ''k''
       = Some \<lparr>Value = None, ExpireAt = 5000\<rparr>
   \<and> ''k'' \<in> set (keysWithExpiry (setExpiry ''k'' 5000 False standalone))"
proof -
  have h: "map_of (store standalone) ''k'' = None"
    by (simp add: standalone_def)
  from setExpiry_absent_key [OF h, of 5000 False] h show ?thesis
    by simp
qed

subsection \<open>The sampler\<close>

lemma sampleLoop_length:
  "sampleLoop i rands volatile keys = Returns (keys', rands') \<Longrightarrow> length keys' = length keys"
proof (induction i rands volatile keys rule: sampleLoop.induct)
  case (1 i rands volatile keys)
  note unfold = sampleLoop.simps [of i rands volatile keys]
  show ?case
  proof (cases "i < length keys")
    case False
    with "1.prems" show ?thesis by (simp add: unfold)
  next
    case True
    show ?thesis
    proof (cases "pickLoop rands volatile keys")
      case (Stops st)
      with "1.prems" True show ?thesis by (simp add: unfold)
    next
      case (Returns p)
      obtain key rs where p: "p = (key, rs)" by (cases p)
      from "1.prems" True Returns p
      have "sampleLoop (i + 1) rs volatile (keys[i := key]) = Returns (keys', rands')"
        by (simp add: unfold)
      from "1.IH" [OF True Returns p [symmetric] this] show ?thesis by simp
    qed
  qed
qed

lemma deleteLoop_count:
  "deleteLoop keys deletedCount s = (Inr d, s') \<Longrightarrow> d = deletedCount + length keys"
proof (induction keys arbitrary: deletedCount s)
  case Nil
  then show ?case by simp
next
  case (Cons k keys)
  show ?case
  proof (cases "\<not> isInCluster s")
    case True
    with Cons.prems have "deleteLoop keys (deletedCount + 1) (snd (deleteKey k s)) = (Inr d, s')"
      by (cases "deleteKey k s") (auto split: option.splits)
    from Cons.IH [OF this] show ?thesis by simp
  next
    case False
    note cluster = this
    show ?thesis
    proof (cases "IsRaftLeader s")
      case True
      with cluster Cons.prems
      have "deleteLoop keys (deletedCount + 1) (snd (raftApplyDeleteKey k s)) = (Inr d, s')"
        by (cases "raftApplyDeleteKey k s") (auto split: option.splits)
      from Cons.IH [OF this] show ?thesis by simp
    next
      case False
      with cluster Cons.prems have "deleteLoop keys (deletedCount + 1) s = (Inr d, s')"
        by simp
      from Cons.IH [OF this] show ?thesis by simp
    qed
  qed
qed

text \<open>Every key of the sample is counted as deleted: the count is the size of the sample.\<close>

lemma evictPass_counts_all:
  assumes "evictPass rands s = Returns (Sampled sampleSize deletedCount again s' rands')"
  shows "deletedCount = sampleSize
         \<and> again = (sampleSize \<noteq> 0 \<and> deletionRatioReached deletedCount sampleSize)"
proof -
  define n where
    "n = (if length (keysWithExpiry s) < EvictionSample (config s)
          then length (keysWithExpiry s) else EvictionSample (config s))"
  from assms have leader: "\<not> (isInCluster s \<and> \<not> IsRaftLeader s)"
    by (auto simp: evictPass_def split: if_splits)
  show ?thesis
  proof (cases "sampleLoop 0 rands (keysWithExpiry s) (replicate n '''')")
    case (Stops st)
    with assms leader show ?thesis
      by (simp add: evictPass_def n_def)
  next
    case (Returns p)
    obtain keys rs where p: "p = (keys, rs)" by (cases p)
    obtain r s1 where d: "deleteLoop keys 0 s = (r, s1)" by (cases "deleteLoop keys 0 s")
    from Returns p have len: "length keys = n"
      by (simp add: sampleLoop_length)
    show ?thesis
    proof (cases r)
      case (Inl err)
      with assms leader Returns p d show ?thesis
        by (simp add: evictPass_def n_def [symmetric] Let_def)
    next
      case (Inr c)
      with d have "deleteLoop keys 0 s = (Inr c, s1)"
        by simp
      then have "c = length keys"
        using deleteLoop_count [of keys 0 s c s1] by simp
      with Inr assms leader Returns p d len show ?thesis
        by (auto simp: evictPass_def n_def [symmetric] Let_def split: if_splits)
    qed
  qed
qed

lemma deleteLoop_frame:
  "isInCluster (snd (deleteLoop keys deletedCount s)) = isInCluster s \<and>
   IsRaftLeader (snd (deleteLoop keys deletedCount s)) = IsRaftLeader s"
proof (induction keys arbitrary: deletedCount s)
  case Nil
  show ?case by simp
next
  case (Cons k keys)
  have "deleteLoop (k # keys) deletedCount s = deleteLoop keys (deletedCount + 1) (snd (deleteKey k s))
        \<or> deleteLoop (k # keys) deletedCount s =
            deleteLoop keys (deletedCount + 1) (snd (raftApplyDeleteKey k s))
        \<or> deleteLoop (k # keys) deletedCount s = deleteLoop keys (deletedCount + 1) s
        \<or> snd (deleteLoop (k # keys) deletedCount s) = snd (raftApplyDeleteKey k s)"
    using deleteKey_error [of k s]
    by (cases "deleteKey k s"; cases "raftApplyDeleteKey k s")
       (auto split: option.splits)
  then show ?case
    using Cons.IH [of "deletedCount + 1" "snd (deleteKey k s)"]
      Cons.IH [of "deletedCount + 1" "snd (raftApplyDeleteKey k s)"]
      Cons.IH [of "deletedCount + 1" s]
    by (elim disjE) (simp_all only: deleteKey_frame raftApplyDeleteKey_frame)
qed

lemma evictPass_frame:
  assumes "evictPass rands s = Returns (Sampled sampleSize deletedCount again s' rands')"
  shows "isInCluster s' = isInCluster s \<and> IsRaftLeader s' = IsRaftLeader s"
proof -
  define n where
    "n = (if length (keysWithExpiry s) < EvictionSample (config s)
          then length (keysWithExpiry s) else EvictionSample (config s))"
  from assms have leader: "\<not> (isInCluster s \<and> \<not> IsRaftLeader s)"
    by (auto simp: evictPass_def split: if_splits)
  show ?thesis
  proof (cases "sampleLoop 0 rands (keysWithExpiry s) (replicate n '''')")
    case (Stops st)
    with assms leader show ?thesis
      by (simp add: evictPass_def n_def)
  next
    case (Returns p)
    obtain keys rs where p: "p = (keys, rs)" by (cases p)
    obtain r s1 where d: "deleteLoop keys 0 s = (r, s1)" by (cases "deleteLoop keys 0 s")
    from assms leader Returns p d have "s' = s1"
      by (cases r) (auto simp: evictPass_def n_def [symmetric] Let_def split: if_splits)
    with d deleteLoop_frame [of keys 0 s] show ?thesis
      by simp
  qed
qed

text \<open>
  The test of the code asks for the whole sample: a count below the size of the sample
  gives the quotient 0, whatever the threshold between 1 and 100.
\<close>

lemma deletionRatioReached_iff:
  assumes "0 < sampleSize"
  shows "deletionRatioReached deletedCount sampleSize = (sampleSize \<le> deletedCount)"
proof (cases "sampleSize \<le> deletedCount")
  case True
  with assms have "1 \<le> deletedCount div sampleSize"
    by (simp add: div_greater_zero_iff Suc_le_eq)
  then have "100 \<le> (deletedCount div sampleSize) * 100"
    by simp
  with True show ?thesis
    by (simp add: deletionRatioReached_def thresholdPercentage_def)
next
  case False
  then have "deletedCount div sampleSize = 0"
    by simp
  with False show ?thesis
    by (simp add: deletionRatioReached_def thresholdPercentage_def)
qed



text \<open>
  Once a pass has decided to sample again, \<^verbatim>\<open>evictKeysWithExpiredTTL\<close> does not
  return: the call to itself blocks on \<^verbatim>\<open>storeLock\<close>, unless it stops before.
\<close>

lemma evictKeysWithExpiredTTL_again_never_returns:
  assumes "evictPass rands s = Returns (Sampled sampleSize deletedCount True s' rands')"
  shows "evictKeysWithExpiredTTL rands s \<noteq> Returns r"
proof -
  from assms have leader: "\<not> (isInCluster s \<and> \<not> IsRaftLeader s)"
    by (auto simp: evictPass_def split: if_splits)
  from assms have "isInCluster s' = isInCluster s \<and> IsRaftLeader s' = IsRaftLeader s"
    by (rule evictPass_frame)
  with leader have "evictKeysWithExpiredTTL_holding_storeLock rands' s' \<noteq> Returns r"
    by (auto simp: evictKeysWithExpiredTTL_holding_storeLock_def Let_def split: outcome.splits)
  with assms show ?thesis
    by (simp add: evictKeysWithExpiredTTL_def)
qed

text \<open>
  Claim C5 says that the sampler deletes a sampled key only when its entry has expired.
  The code deletes every key of the sample without looking at the entry. Here the one
  entry of the store expires at 5000, the clock stands at 1000, and the pass deletes the
  entry.
\<close>

theorem evictPass_deletes_unexpired:
  "evictPass [0]
     (standalone\<lparr>clock := 1000,
                 store := [(''k'', \<lparr>Value = Some ''v'', ExpireAt = 5000\<rparr>)],
                 keysWithExpiry := [''k'']\<rparr>)
     = Returns (Sampled 1 1 True
                 (standalone\<lparr>clock := 1000, store := [], keysWithExpiry := []\<rparr>) [])"
  by (simp add: evictPass_def standalone_def sampleLoop.simps pickLoop.simps Intn_def
        deleteKey_def NoEviction_def AllKeysLFU_def VolatileLFU_def AllKeysLRU_def VolatileLRU_def
        deletionRatioReached_def thresholdPercentage_def Let_def AList.delete_eq)

theorem evictPass_deletes_unexpired_witness:
  "\<not> (5000 < clock (standalone\<lparr>clock := 1000,
                     store := [(''k'', \<lparr>Value = Some ''v'', ExpireAt = 5000\<rparr>)],
                     keysWithExpiry := [''k'']\<rparr>))
   \<and> (\<exists>sampleSize deletedCount again s' rands'.
         evictPass [0]
           (standalone\<lparr>clock := 1000,
                       store := [(''k'', \<lparr>Value = Some ''v'', ExpireAt = 5000\<rparr>)],
                       keysWithExpiry := [''k'']\<rparr>)
           = Returns (Sampled sampleSize deletedCount again s' rands')
         \<and> map_of (store s') ''k'' = None)"
  using evictPass_deletes_unexpired by (auto simp: standalone_def)

subsection \<open>The memory governor on an empty index\<close>

lemma adjustMemoryUsage_volatile_random_empty_index:
  assumes "MaxMemory (config s) \<noteq> 0"
    and "\<not> h1 < MaxMemory (config s)" and "\<not> h2 < MaxMemory (config s)"
    and "ToLower (EvictionPolicy (config s)) = VolatileRandom"
    and "keysWithExpiry s = []"
  shows "adjustMemoryUsage (h1 # h2 # heap) rands s = Stops (Panic ''invalid argument to Intn'')"
  using assms
  by (simp add: adjustMemoryUsage_def volatileRandomLoop.simps [of _ _ s] Intn_def
        VolatileRandom_def AllKeysLFU_def VolatileLFU_def AllKeysLRU_def VolatileLRU_def
        AllKeysRandom_def)

text \<open>
  Claim C4 says that under \<^verbatim>\<open>volatile-random\<close>, with memory over the limit and
  no key in the index of volatile keys, \<^verbatim>\<open>adjustMemoryUsage\<close> returns a
  no-keys-to-evict error and never panics. The code calls \<^verbatim>\<open>rand.Intn(0)\<close>, which
  panics. Here the limit is 100 bytes, the heap is read twice at 200, and the index is
  empty.
\<close>

theorem adjustMemoryUsage_volatile_random_panics:
  "adjustMemoryUsage [200, 200] [0]
     (standalone\<lparr>config := \<lparr>MaxMemory = 100, EvictionPolicy = ''volatile-random'',
                              EvictionSample = 20, ForwardCommand = False\<rparr>,
                 store := [(''a'', \<lparr>Value = Some ''v'', ExpireAt = 0\<rparr>)]\<rparr>)
     = Stops (Panic ''invalid argument to Intn'')"
  by (simp add: adjustMemoryUsage_def volatileRandomLoop.simps Intn_def standalone_def
        ToLower_def toLowerChar_def
        VolatileRandom_def AllKeysLFU_def VolatileLFU_def AllKeysLRU_def VolatileLRU_def
        AllKeysRandom_def)

theorem adjustMemoryUsage_volatile_random_panics_witness:
  "\<forall>r. adjustMemoryUsage [200, 200] [0]
         (standalone\<lparr>config := \<lparr>MaxMemory = 100, EvictionPolicy = ''volatile-random'',
                                  EvictionSample = 20, ForwardCommand = False\<rparr>,
                     store := [(''a'', \<lparr>Value = Some ''v'', ExpireAt = 0\<rparr>)]\<rparr>)
       \<noteq> Returns r"
  using adjustMemoryUsage_volatile_random_panics by simp

subsection \<open>\<^verbatim>\<open>getKeys\<close>\<close>

lemma getKeys_append:
  "foldl (\<lambda>keys (key, _). keys @ [key]) acc al = acc @ map fst al"
  by (induction al arbitrary: acc) (auto split: prod.splits)

lemma getKeys_padding:
  "getKeys s = replicate (length (store s)) '''' @ map fst (store s)"
  by (simp add: getKeys_def getKeys_append)

text \<open>
  Claim C7 says that \<^verbatim>\<open>getKeys\<close> returns exactly the keys of the store, with no
  empty strings for padding. The code returns as many empty strings as the store has
  keys, and the keys behind them. Here the store holds the one key \<open>a\<close>.
\<close>

theorem getKeys_pads_with_empty_strings:
  "getKeys (standalone\<lparr>store := [(''a'', \<lparr>Value = Some ''v'', ExpireAt = 0\<rparr>)]\<rparr>) = ['''', ''a'']"
  by (simp add: getKeys_def standalone_def)

theorem getKeys_pads_with_empty_strings_witness:
  "length (getKeys (standalone\<lparr>store := [(''a'', \<lparr>Value = Some ''v'', ExpireAt = 0\<rparr>)]\<rparr>)) = 2
   \<and> '''' \<in> set (getKeys (standalone\<lparr>store := [(''a'', \<lparr>Value = Some ''v'', ExpireAt = 0\<rparr>)]\<rparr>))"
  using getKeys_pads_with_empty_strings by simp

subsection \<open>The mutation flag of the dispatcher\<close>

text \<open>
  The routes of a write command that was resolved without a sub-command and without an
  ACL: what \<^verbatim>\<open>handleCommand\<close> returns when the handler fails, and when this node
  is a cluster member that does not lead.
\<close>

lemma handleCommand_handler_error:
  assumes "Decode env message = Inr cmd" and "cmd \<noteq> []" and "\<not> EqualFold (cmd ! 0) ''quit''"
    and "getCommand commands (cmd ! 0) = Inr command"
    and "GetSubCommand env command cmd = Inr None" and "acl env = None"
    and "IsWriteCommand env command None" and "\<not> stateCopyInProgress s"
    and "\<not> isInCluster s \<or> \<not> Sync command"
    and "HandlerFunc command cmd (s\<lparr>stateMutationInProgress := True\<rparr>) = (Inl err, s')"
  shows "handleCommand env commands message conn replay embedded s = Returns (Inl err, s')"
  using assms by (auto simp: handleCommand_def Let_def split: option.splits)

lemma handleCommand_not_leader:
  assumes "Decode env message = Inr cmd" and "cmd \<noteq> []" and "\<not> EqualFold (cmd ! 0) ''quit''"
    and "getCommand commands (cmd ! 0) = Inr command"
    and "GetSubCommand env command cmd = Inr None" and "acl env = None"
    and "IsWriteCommand env command None" and "\<not> stateCopyInProgress s"
    and "isInCluster s" and "Sync command" and "\<not> IsRaftLeader s"
  shows "handleCommand env commands message conn replay embedded s =
           (if ForwardCommand (config s)
            then Returns (Inr OkResponse,
                          s\<lparr>stateMutationInProgress := True,
                            forwarded := forwarded s @ [ForwardDataMutation message]\<rparr>)
            else Returns (Inl ''not cluster leader, cannot carry out command'',
                          s\<lparr>stateMutationInProgress := True\<rparr>))"
  using assms by (auto simp: handleCommand_def Let_def split: option.splits)

text \<open>
  Claim C2 says that \<open>stateMutationInProgress\<close> is false again when \<^verbatim>\<open>handleCommand\<close>
  returns from a write command, whatever the outcome. The code clears the flag only
  after a handler that ran here has succeeded. Here \<^verbatim>\<open>INCR\<close>, a write command, is
  run on a standalone server and its handler returns an error: the flag stays set.
\<close>

theorem handleCommand_error_leaves_flag_set:
  "handleCommand
     \<lparr>Decode = (\<lambda>message. Inr [''INCR'', ''IncrKey3'']),
      GetSubCommand = (\<lambda>command cmd. Inr None),
      acl = None,
      IsWriteCommand = (\<lambda>command subCommand. ''write'' \<in> set (Categories command)),
      raftApplyCommand = (\<lambda>cmd s. (Inl ''no cluster'', s))\<rparr>
     [\<lparr>Command = ''incr'', Categories = [''write'', ''fast''], SubCommands = [], Sync = True,
       HandlerFunc = (\<lambda>cmd s. (Inl ''value is not an integer or out of range'', s))\<rparr>]
     ''*2 $4 INCR $8 IncrKey3'' (Some 1) False False
     (standalone\<lparr>store := [(''IncrKey3'', \<lparr>Value = Some ''not_an_int'', ExpireAt = 0\<rparr>)]\<rparr>)
   = Returns (Inl ''value is not an integer or out of range'',
              standalone\<lparr>store := [(''IncrKey3'', \<lparr>Value = Some ''not_an_int'', ExpireAt = 0\<rparr>)],
                         stateMutationInProgress := True\<rparr>)"
  by (simp add: handleCommand_def standalone_def EqualFold_def ToLower_def toLowerChar_def Let_def)

theorem handleCommand_error_leaves_flag_set_witness:
  "\<exists>err s'.
     handleCommand
       \<lparr>Decode = (\<lambda>message. Inr [''INCR'', ''IncrKey3'']),
        GetSubCommand = (\<lambda>command cmd. Inr None),
        acl = None,
        IsWriteCommand = (\<lambda>command subCommand. ''write'' \<in> set (Categories command)),
        raftApplyCommand = (\<lambda>cmd s. (Inl ''no cluster'', s))\<rparr>
       [\<lparr>Command = ''incr'', Categories = [''write'', ''fast''], SubCommands = [], Sync = True,
         HandlerFunc = (\<lambda>cmd s. (Inl ''value is not an integer or out of range'', s))\<rparr>]
       ''*2 $4 INCR $8 IncrKey3'' (Some 1) False False
       (standalone\<lparr>store := [(''IncrKey3'', \<lparr>Value = Some ''not_an_int'', ExpireAt = 0\<rparr>)]\<rparr>)
     = Returns (Inl err, s') \<and> stateMutationInProgress s'"
  using handleCommand_error_leaves_flag_set by simp

end
